theory Spec2Isabelle
  imports Main
begin

section \<open>Abstract values\<close>

text \<open>
  The classes of \<^verbatim>\<open>State.h\<close> are templates over the abstract value type
  \<^verbatim>\<open>AVALUE\<close>. The template asks three things of it: a method
  \<^verbatim>\<open>bool mergeWith(AVALUE const&)\<close> that updates the receiver and reports whether it
  changed, and the static constructors \<^verbatim>\<open>Absent()\<close> and \<^verbatim>\<open>top()\<close>. The
  value type is a parameter of the model: a record of these three operations, the
  in-place update returned next to the flag.
\<close>

record 'v avalue =
  v_mergeWith :: "'v \<Rightarrow> 'v \<Rightarrow> bool \<times> 'v"
  v_Absent :: 'v
  v_top :: 'v

text \<open>Faults of the C++ code: a failed \<^verbatim>\<open>assert\<close> and the use of a null state pointer.\<close>

datatype error = AssertionFailed | NullState

section \<open>AbstractStack\<close>

text \<open>
  \<^verbatim>\<open>std::deque<AVALUE> stack_\<close> is a list, index 0 the top of the stack.
\<close>

type_synonym 'v AbstractStack = "'v list"

definition depth :: "'v AbstractStack \<Rightarrow> nat" where
  "depth s = length s"

text \<open>
  One round of the loop of \<^verbatim>\<open>AbstractStack::mergeWith\<close>:
  \<^verbatim>\<open>result = stack_[i].mergeWith(other.stack_[i]) or result\<close>.
\<close>

definition stack_merge_at ::
  "'v avalue \<Rightarrow> 'v AbstractStack \<Rightarrow> nat \<Rightarrow> bool \<times> 'v AbstractStack \<Rightarrow> bool \<times> 'v AbstractStack" where
  "stack_merge_at d other i acc =
     (case acc of (result, stack) \<Rightarrow>
        (case v_mergeWith d (stack ! i) (other ! i) of
           (changed, v) \<Rightarrow> (changed \<or> result, stack[i := v])))"

text \<open>
  \<^verbatim>\<open>AbstractStack::mergeWith(AbstractStack const&)\<close>: the assertion on the depths, then
  the loop \<^verbatim>\<open>for (size_t i = 0, e = stack_.size(); i != e; ++i)\<close>.
\<close>

definition stack_mergeWith ::
  "'v avalue \<Rightarrow> 'v AbstractStack \<Rightarrow> 'v AbstractStack \<Rightarrow> error + (bool \<times> 'v AbstractStack)" where
  "stack_mergeWith d stack other =
     (if depth stack \<noteq> depth other then Inl AssertionFailed
      else Inr (fold (stack_merge_at d other) [0 ..< length stack] (False, stack)))"

section \<open>AbstractEnvironment\<close>

text \<open>
  \<^verbatim>\<open>std::map<KEY, AVALUE> env_\<close> keeps its entries in increasing key order, one entry
  per key: an association list, walked from the front as the iterators do.
  \<^verbatim>\<open>parent_\<close> is a pointer that is null or owns the parent environment. The
  selectors drop the trailing underscore of the member names.
\<close>

datatype ('k, 'v) AbstractEnvironment =
  AbstractEnvironment (env: "('k \<times> 'v) list") (parent: "('k, 'v) AbstractEnvironment option")

text \<open>\<^verbatim>\<open>env_.find(k)\<close>: the entry of the key, or \<^verbatim>\<open>end()\<close>.\<close>

definition map_find :: "('k \<times> 'v) list \<Rightarrow> 'k \<Rightarrow> 'v option" where
  "map_find m k = map_of m k"

text \<open>
  \<^verbatim>\<open>env_.emplace(k, v)\<close> and \<^verbatim>\<open>env_.insert(pair(k, v))\<close>: a new entry at the place
  the key order gives it; nothing happens when the key is there already.
\<close>

fun map_emplace :: "'k::linorder \<Rightarrow> 'v \<Rightarrow> ('k \<times> 'v) list \<Rightarrow> ('k \<times> 'v) list" where
  "map_emplace k v [] = [(k, v)]"
| "map_emplace k v ((k', v') # m) =
     (if k = k' then (k', v') # m
      else if k < k' then (k, v) # (k', v') # m
      else (k', v') # map_emplace k v m)"

text \<open>A write through the iterator that \<^verbatim>\<open>find\<close> returned: \<^verbatim>\<open>own->second\<close> is updated.\<close>

fun map_assign :: "'k \<Rightarrow> 'v \<Rightarrow> ('k \<times> 'v) list \<Rightarrow> ('k \<times> 'v) list" where
  "map_assign k v [] = []"
| "map_assign k v ((k', v') # m) =
     (if k = k' then (k', v) # m else (k', v') # map_assign k v m)"

text \<open>
  The copy constructor copies the map and clones the parent, so the whole chain is
  copied; \<^verbatim>\<open>clone()\<close> is the copy constructor.
\<close>

fun env_clone :: "('k, 'v) AbstractEnvironment \<Rightarrow> ('k, 'v) AbstractEnvironment" where
  "env_clone (AbstractEnvironment m p) =
     AbstractEnvironment m (case p of None \<Rightarrow> None | Some q \<Rightarrow> Some (env_clone q))"

text \<open>
  First loop of \<^verbatim>\<open>AbstractEnvironment::mergeWith\<close>, over the entries of the other
  environment. The accumulator is \<^verbatim>\<open>result\<close> and the own map.
\<close>

fun merge_other ::
  "'v avalue \<Rightarrow> ('k \<times> 'v) list \<Rightarrow> bool \<times> ('k::linorder \<times> 'v) list \<Rightarrow> bool \<times> ('k \<times> 'v) list" where
  "merge_other d [] acc = acc"
| "merge_other d ((k, v) # rest) (result, m) =
     (case map_find m k of
        None \<Rightarrow>
          (let missing = snd (v_mergeWith d v (v_Absent d))
           in merge_other d rest (True, map_emplace k missing m))
      | Some own \<Rightarrow>
          (case v_mergeWith d own v of
             (changed, own') \<Rightarrow> merge_other d rest (changed \<or> result, map_assign k own' m)))"

text \<open>
  Second loop, over the own entries (those the first loop added too): an entry whose
  key the other environment lacks is merged with \<^verbatim>\<open>Absent()\<close> where it stands.
\<close>

fun merge_missing ::
  "'v avalue \<Rightarrow> ('k \<times> 'v) list \<Rightarrow> ('k \<times> 'v) list \<Rightarrow> bool \<Rightarrow> bool \<times> ('k \<times> 'v) list" where
  "merge_missing d other [] result = (result, [])"
| "merge_missing d other ((k, v) # rest) result =
     (case map_find other k of
        None \<Rightarrow>
          (case v_mergeWith d v (v_Absent d) of
             (changed, v') \<Rightarrow>
               (case merge_missing d other rest (changed \<or> result) of
                  (result', rest') \<Rightarrow> (result', (k, v') # rest')))
      | Some them \<Rightarrow>
          (case merge_missing d other rest result of
             (result', rest') \<Rightarrow> (result', (k, v) # rest')))"

text \<open>
  \<^verbatim>\<open>AbstractEnvironment::mergeWith(AbstractEnvironment const&)\<close>: the two loops, then
  the parents. The result is the returned flag and the environment after the call.
\<close>

fun env_mergeWith ::
  "'v avalue \<Rightarrow> ('k::linorder, 'v) AbstractEnvironment \<Rightarrow> ('k, 'v) AbstractEnvironment
     \<Rightarrow> bool \<times> ('k, 'v) AbstractEnvironment" where
  "env_mergeWith d (AbstractEnvironment m p) (AbstractEnvironment om op) =
     (case merge_other d om (False, m) of
        (r1, m1) \<Rightarrow>
          (case merge_missing d om m1 r1 of
             (r2, m2) \<Rightarrow>
               (case p of
                  None \<Rightarrow>
                    (case op of
                       None \<Rightarrow> (r2, AbstractEnvironment m2 None)
                     | Some q \<Rightarrow> (True, AbstractEnvironment m2 (Some (env_clone q))))
                | Some own \<Rightarrow>
                    (case op of
                       None \<Rightarrow> (r2, AbstractEnvironment m2 (Some own))
                     | Some q \<Rightarrow>
                         (case env_mergeWith d own q of
                            (rp, own') \<Rightarrow> (rp \<or> r2, AbstractEnvironment m2 (Some own')))))))"

text \<open>\<^verbatim>\<open>has(name)\<close>: the key is in the own map; parents are not looked at.\<close>

definition has :: "('k, 'v) AbstractEnvironment \<Rightarrow> 'k \<Rightarrow> bool" where
  "has e name = (map_find (env e) name \<noteq> None)"

text \<open>\<^verbatim>\<open>find(name)\<close>: own map, then the parent chain, then \<^verbatim>\<open>AVALUE::top()\<close>.\<close>

fun env_find :: "'v avalue \<Rightarrow> ('k, 'v) AbstractEnvironment \<Rightarrow> 'k \<Rightarrow> 'v" where
  "env_find d (AbstractEnvironment m p) name =
     (case map_find m name of
        None \<Rightarrow> (case p of Some q \<Rightarrow> env_find d q name | None \<Rightarrow> v_top d)
      | Some v \<Rightarrow> v)"

text \<open>\<^verbatim>\<open>operator[](name) const\<close>.\<close>

definition index_const :: "'v avalue \<Rightarrow> ('k, 'v) AbstractEnvironment \<Rightarrow> 'k \<Rightarrow> 'v" where
  "index_const d e name =
     (case map_find (env e) name of None \<Rightarrow> v_top d | Some v \<Rightarrow> v)"

text \<open>
  \<^verbatim>\<open>operator[](name)\<close>, not const: the value the returned reference points to, and
  the environment after the call.
\<close>

definition index_mut ::
  "'v avalue \<Rightarrow> ('k::linorder, 'v) AbstractEnvironment \<Rightarrow> 'k \<Rightarrow> 'v \<times> ('k, 'v) AbstractEnvironment" where
  "index_mut d e name =
     (case map_find (env e) name of
        None \<Rightarrow>
          (let m' = map_emplace name (v_top d) (env e)
           in (the (map_find m' name), AbstractEnvironment m' (parent e)))
      | Some v \<Rightarrow> (v, e))"


text \<open>
  The invariant of \<^verbatim>\<open>std::map\<close>, at every level of the chain: keys strictly
  increasing, so no key twice.
\<close>

fun env_inv :: "('k::linorder, 'v) AbstractEnvironment \<Rightarrow> bool" where
  "env_inv (AbstractEnvironment m p) =
     (sorted_wrt (<) (map fst m) \<and> (case p of None \<Rightarrow> True | Some q \<Rightarrow> env_inv q))"

text \<open>
  The merge of one key as the specification words it, from the two lookups: a key of
  one side only is merged with \<^verbatim>\<open>Absent()\<close>, a key of both sides is merged directly,
  the own value the receiver.
\<close>

definition merged_value :: "'v avalue \<Rightarrow> 'v option \<Rightarrow> 'v option \<Rightarrow> 'v option" where
  "merged_value d own them =
     (case own of
        None \<Rightarrow> (case them of None \<Rightarrow> None
                  | Some v \<Rightarrow> Some (snd (v_mergeWith d v (v_Absent d))))
      | Some u \<Rightarrow> (case them of None \<Rightarrow> Some (snd (v_mergeWith d u (v_Absent d)))
                  | Some v \<Rightarrow> Some (snd (v_mergeWith d u v))))"

text \<open>A value domain whose merge gives the same value in both directions.\<close>

definition merge_commutes :: "'v avalue \<Rightarrow> bool" where
  "merge_commutes d = (\<forall>x y. snd (v_mergeWith d x y) = snd (v_mergeWith d y x))"

text \<open>The environments of a chain, the own map first.\<close>

fun chain :: "('k, 'v) AbstractEnvironment \<Rightarrow> ('k \<times> 'v) list list" where
  "chain (AbstractEnvironment m p) = m # (case p of None \<Rightarrow> [] | Some q \<Rightarrow> chain q)"

section \<open>Dispatcher\<close>

text \<open>
  A \<^verbatim>\<open>Dispatcher\<close> object is the private flag \<^verbatim>\<open>success_\<close> and whatever the
  subclass adds and reaches. \<^verbatim>\<open>doDispatch\<close> is pure virtual. A subclass cannot
  name \<^verbatim>\<open>success_\<close>; it can call the protected \<^verbatim>\<open>fail()\<close> and the public
  \<^verbatim>\<open>dispatch\<close>. So a body of \<^verbatim>\<open>doDispatch\<close> is a statement built from calls
  of \<^verbatim>\<open>fail()\<close>, calls of \<^verbatim>\<open>dispatch\<close> on the same object, and code that works
  on the subclass's part of the object.
\<close>

type_synonym loc = int










section \<open>The analysis drivers\<close>

text \<open>
  \<^verbatim>\<open>CodeEditor\<close> is not part of the analysis framework; the drivers use it through
  the predicates and functions below, which the model takes as parameters. A location
  (\<^verbatim>\<open>CodeEditor::Iterator\<close>) is an integer, \<^verbatim>\<open>++\<close> and \<^verbatim>\<open>--\<close> one step up
  and down. \<^verbatim>\<open>successors\<close> is \<^verbatim>\<open>code_->next(it)\<close>.
\<close>

record CodeEditor =
  isLabel :: "loc \<Rightarrow> bool"
  isJmp :: "loc \<Rightarrow> bool"
  isUncondJmp :: "loc \<Rightarrow> bool"
  isExitPoint :: "loc \<Rightarrow> bool"
  isEntryPoint :: "loc \<Rightarrow> bool"
  target :: "loc \<Rightarrow> loc"
  successors :: "loc \<Rightarrow> loc set"
  code_begin :: loc
  code_end :: loc
  code_rbegin :: loc

text \<open>
  What a concrete analysis supplies: its state class \<^verbatim>\<open>ASTATE\<close> with the virtual
  \<^verbatim>\<open>clone\<close> and \<^verbatim>\<open>mergeWith\<close> of \<^verbatim>\<open>State\<close>, the virtual
  \<^verbatim>\<open>initialState()\<close>, and the dispatcher, whose receiver works on the current state.
\<close>

record 'st Analysis =
  a_initialState :: 'st
  a_clone :: "'st \<Rightarrow> 'st"
  a_mergeWith :: "'st \<Rightarrow> 'st \<Rightarrow> bool \<times> 'st"
  a_dispatch :: "loc \<Rightarrow> 'st \<Rightarrow> 'st"

text \<open>
  The members of \<^verbatim>\<open>ForwardAnalysis\<close> and of \<^verbatim>\<open>BackwardAnalysis\<close>, named as there
  without the trailing underscore; \<^verbatim>\<open>worklist\<close> is the deque \<^verbatim>\<open>q_\<close>, its front
  the head of the list. A state pointer is an option, \<^verbatim>\<open>nullptr\<close> is \<open>None\<close>. An
  entry of \<^verbatim>\<open>mergePoints_\<close> that holds \<^verbatim>\<open>nullptr\<close> and a missing entry are both
  \<open>None\<close>. \<^verbatim>\<open>jumpOrigins_\<close> is a member of \<^verbatim>\<open>BackwardAnalysis\<close> only.
\<close>

record 'st driver =
  initialState :: "'st option"
  currentState :: "'st option"
  finalState :: "'st option"
  currentIns :: loc
  mergePoints :: "loc \<rightharpoonup> 'st"
  worklist :: "loc list"
  jumpOrigins :: "loc \<Rightarrow> loc list"

text \<open>How one round of the inner \<^verbatim>\<open>while (true)\<close> ends: by \<^verbatim>\<open>break\<close> or at its end.\<close>

datatype 'a flow = Break 'a | Next 'a


subsection \<open>What both drivers do at a merge point, at a dispatch and at the end of a branch\<close>

text \<open>
  The merge-point block, the same text in \<^verbatim>\<open>ForwardAnalysis::doAnalyze\<close> (at a label)
  and in \<^verbatim>\<open>BackwardAnalysis::doAnalyze\<close> (at a jump): store a copy of the incoming
  state, or take a copy of the stored one, or merge and go on with a copy of the merged
  one, or \<^verbatim>\<open>break\<close> when the merge changed nothing.
\<close>

definition at_mergePoint :: "'st Analysis \<Rightarrow> 'st driver \<Rightarrow> error + 'st driver flow" where
  "at_mergePoint A s =
     (case mergePoints s (currentIns s) of
        None \<Rightarrow>
          (case currentState s of
             None \<Rightarrow> Inl AssertionFailed
           | Some cur \<Rightarrow>
               Inr (Next (s\<lparr>mergePoints := (mergePoints s)(currentIns s \<mapsto> a_clone A cur)\<rparr>)))
      | Some stored \<Rightarrow>
          (case currentState s of
             None \<Rightarrow> Inr (Next (s\<lparr>currentState := Some (a_clone A stored)\<rparr>))
           | Some cur \<Rightarrow>
               (case a_mergeWith A stored cur of
                  (changed, stored') \<Rightarrow>
                    if changed
                    then Inr (Next (s\<lparr>mergePoints := (mergePoints s)(currentIns s \<mapsto> stored'),
                                       currentState := Some (a_clone A stored')\<rparr>))
                    else Inr (Break (s\<lparr>mergePoints := (mergePoints s)(currentIns s \<mapsto> stored'),
                                        currentState := None\<rparr>)))))"

text \<open>
  \<^verbatim>\<open>d.dispatch(currentIns_)\<close>: the receiver works on \<^verbatim>\<open>current()\<close>, which is
  \<^verbatim>\<open>*currentState_\<close>; with no current state that is a null reference.
\<close>

definition do_dispatch :: "'st Analysis \<Rightarrow> 'st driver \<Rightarrow> error + 'st driver" where
  "do_dispatch A s =
     (case currentState s of
        None \<Rightarrow> Inl NullState
      | Some cur \<Rightarrow> Inr (s\<lparr>currentState := Some (a_dispatch A (currentIns s) cur)\<rparr>))"

text \<open>
  The end of a branch (forward at an exit point, backward at an entry point): the
  current state becomes the final state or is merged into it, and the branch ends.
\<close>

definition to_finalState :: "'st Analysis \<Rightarrow> 'st driver \<Rightarrow> error + 'st driver" where
  "to_finalState A s =
     (case finalState s of
        None \<Rightarrow> Inr (s\<lparr>finalState := currentState s, currentState := None\<rparr>)
      | Some final \<Rightarrow>
          (case currentState s of
             None \<Rightarrow> Inl NullState
           | Some cur \<Rightarrow>
               Inr (s\<lparr>finalState := Some (snd (a_mergeWith A final cur)),
                      currentState := None\<rparr>)))"

subsection \<open>ForwardAnalysis\<close>

text \<open>\<^verbatim>\<open>ForwardAnalysis::shouldJump(label)\<close>: the answer and the driver after the call.\<close>

definition shouldJump :: "'st Analysis \<Rightarrow> loc \<Rightarrow> 'st driver \<Rightarrow> error + (bool \<times> 'st driver)" where
  "shouldJump A label s =
     (case mergePoints s label of
        None \<Rightarrow>
          (case currentState s of
             None \<Rightarrow> Inl NullState
           | Some cur \<Rightarrow>
               Inr (True, s\<lparr>mergePoints := (mergePoints s)(label \<mapsto> a_clone A cur)\<rparr>))
      | Some stored \<Rightarrow>
          (case currentState s of
             None \<Rightarrow> Inl NullState
           | Some cur \<Rightarrow>
               (case a_mergeWith A stored cur of
                  (changed, stored') \<Rightarrow>
                    Inr (changed, s\<lparr>mergePoints := (mergePoints s)(label \<mapsto> stored')\<rparr>))))"

text \<open>
  The rest of a round after the dispatch: the jump, the exit point, or the step to the
  next instruction.
\<close>

definition fwd_control :: "CodeEditor \<Rightarrow> 'st Analysis \<Rightarrow> 'st driver \<Rightarrow> error + 'st driver flow" where
  "fwd_control c A s =
     (if isJmp c (currentIns s) then
        (let l = target c (currentIns s) in
         case shouldJump A l s of
           Inl e \<Rightarrow> Inl e
         | Inr (jump, s1) \<Rightarrow>
             (let s2 = (if jump then s1\<lparr>worklist := l # worklist s1\<rparr> else s1) in
              if isUncondJmp c (currentIns s) then Inr (Break (s2\<lparr>currentState := None\<rparr>))
              else Inr (Next (s2\<lparr>currentIns := currentIns s2 + 1\<rparr>))))
      else if isExitPoint c (currentIns s) then
        (case to_finalState A s of Inl e \<Rightarrow> Inl e | Inr s1 \<Rightarrow> Inr (Break s1))
      else Inr (Next (s\<lparr>currentIns := currentIns s + 1\<rparr>)))"

text \<open>One round of the inner loop of \<^verbatim>\<open>ForwardAnalysis::doAnalyze\<close>.\<close>

definition fwd_round :: "CodeEditor \<Rightarrow> 'st Analysis \<Rightarrow> 'st driver \<Rightarrow> error + 'st driver flow" where
  "fwd_round c A s =
     (case (if isLabel c (currentIns s) then at_mergePoint A s else Inr (Next s)) of
        Inl e \<Rightarrow> Inl e
      | Inr (Break s1) \<Rightarrow> Inr (Break s1)
      | Inr (Next s1) \<Rightarrow>
          (case do_dispatch A s1 of
             Inl e \<Rightarrow> Inl e
           | Inr s2 \<Rightarrow> fwd_control c A s2))"

text \<open>
  The inner \<^verbatim>\<open>while (true)\<close>. It need not end, so its result is an option: \<open>None\<close>
  when the loop runs forever.
\<close>

partial_function (option) fwd_walk ::
  "CodeEditor \<Rightarrow> 'st Analysis \<Rightarrow> 'st driver \<Rightarrow> (error + 'st driver) option" where
  "fwd_walk c A s =
     (case fwd_round c A s of
        Inl e \<Rightarrow> Some (Inl e)
      | Inr (Break s1) \<Rightarrow> Some (Inr s1)
      | Inr (Next s1) \<Rightarrow> fwd_walk c A s1)"

text \<open>\<^verbatim>\<open>currentIns_ = q_.front(); q_.pop_front();\<close>\<close>

definition pop_front :: "'st driver \<Rightarrow> 'st driver" where
  "pop_front s = s\<lparr>currentIns := hd (worklist s), worklist := tl (worklist s)\<rparr>"

text \<open>The outer \<^verbatim>\<open>while (not q_.empty())\<close>.\<close>

partial_function (option) fwd_loop ::
  "CodeEditor \<Rightarrow> 'st Analysis \<Rightarrow> 'st driver \<Rightarrow> (error + 'st driver) option" where
  "fwd_loop c A s =
     (if worklist s = [] then Some (Inr s)
      else
        (case fwd_walk c A (pop_front s) of
           None \<Rightarrow> None
         | Some (Inl e) \<Rightarrow> Some (Inl e)
         | Some (Inr s1) \<Rightarrow> fwd_loop c A s1))"

text \<open>The four statements of \<^verbatim>\<open>ForwardAnalysis::doAnalyze\<close> before its loop.\<close>

definition fwd_start :: "CodeEditor \<Rightarrow> 'st Analysis \<Rightarrow> 'st driver \<Rightarrow> 'st driver" where
  "fwd_start c A s =
     s\<lparr>initialState := Some (a_initialState A),
       currentState := Some (a_clone A (a_initialState A)),
       worklist := code_begin c # worklist s\<rparr>"

definition fwd_doAnalyze ::
  "CodeEditor \<Rightarrow> 'st Analysis \<Rightarrow> 'st driver \<Rightarrow> (error + 'st driver) option" where
  "fwd_doAnalyze c A s = fwd_loop c A (fwd_start c A s)"

text \<open>A driver before its first analysis, or after \<^verbatim>\<open>invalidate()\<close>.\<close>

definition fresh :: "'st driver" where
  "fresh = \<lparr>initialState = None, currentState = None, finalState = None, currentIns = 0,
            mergePoints = Map.empty, worklist = [], jumpOrigins = (\<lambda>l. [])\<rparr>"


subsection \<open>BackwardAnalysis\<close>

text \<open>\<^verbatim>\<open>isMergePoint(ins)\<close> is \<^verbatim>\<open>code_->isJmp(ins)\<close>.\<close>

definition isMergePoint :: "CodeEditor \<Rightarrow> loc \<Rightarrow> bool" where
  "isMergePoint c ins = isJmp c ins"

text \<open>
  \<^verbatim>\<open>BackwardAnalysis::shouldFollowJumpFrom(ins)\<close>, the same text as
  \<^verbatim>\<open>shouldJump\<close>.
\<close>

definition shouldFollowJumpFrom ::
  "'st Analysis \<Rightarrow> loc \<Rightarrow> 'st driver \<Rightarrow> error + (bool \<times> 'st driver)" where
  "shouldFollowJumpFrom A ins s =
     (case mergePoints s ins of
        None \<Rightarrow>
          (case currentState s of
             None \<Rightarrow> Inl NullState
           | Some cur \<Rightarrow>
               Inr (True, s\<lparr>mergePoints := (mergePoints s)(ins \<mapsto> a_clone A cur)\<rparr>))
      | Some stored \<Rightarrow>
          (case currentState s of
             None \<Rightarrow> Inl NullState
           | Some cur \<Rightarrow>
               (case a_mergeWith A stored cur of
                  (changed, stored') \<Rightarrow>
                    Inr (changed, s\<lparr>mergePoints := (mergePoints s)(ins \<mapsto> stored')\<rparr>))))"

text \<open>
  The loop over the recorded origins of a label:
  \<^verbatim>\<open>for (auto origin : jumpOrigins_[currentIns_]) if (shouldFollowJumpFrom(origin)) q_.push_front(origin);\<close>
\<close>

fun follow_origins :: "'st Analysis \<Rightarrow> loc list \<Rightarrow> 'st driver \<Rightarrow> error + 'st driver" where
  "follow_origins A [] s = Inr s"
| "follow_origins A (origin # rest) s =
     (case shouldFollowJumpFrom A origin s of
        Inl e \<Rightarrow> Inl e
      | Inr (follow, s1) \<Rightarrow>
          follow_origins A rest (if follow then s1\<lparr>worklist := origin # worklist s1\<rparr> else s1))"

text \<open>
  The block \<^verbatim>\<open>if (code_->isLabel(currentIns_)) { ... }\<close> of
  \<^verbatim>\<open>BackwardAnalysis::doAnalyze\<close> and the step \<^verbatim>\<open>--currentIns_\<close> after it.
\<close>

definition bwd_control :: "CodeEditor \<Rightarrow> 'st Analysis \<Rightarrow> 'st driver \<Rightarrow> error + 'st driver flow" where
  "bwd_control c A s =
     (if isLabel c (currentIns s) then
        (case follow_origins A (jumpOrigins s (currentIns s)) s of
           Inl e \<Rightarrow> Inl e
         | Inr s1 \<Rightarrow>
             if isExitPoint c (currentIns s - 1)
                \<or> currentIns s \<notin> successors c (currentIns s - 1)
             then Inr (Break (s1\<lparr>currentState := None\<rparr>))
             else Inr (Next (s1\<lparr>currentIns := currentIns s1 - 1\<rparr>)))
      else Inr (Next (s\<lparr>currentIns := currentIns s - 1\<rparr>)))"

text \<open>One round of the inner loop of \<^verbatim>\<open>BackwardAnalysis::doAnalyze\<close>.\<close>

definition bwd_round :: "CodeEditor \<Rightarrow> 'st Analysis \<Rightarrow> 'st driver \<Rightarrow> error + 'st driver flow" where
  "bwd_round c A s =
     (case (if isExitPoint c (currentIns s) then
              (case currentState s of
                 Some cur \<Rightarrow> Inl AssertionFailed
               | None \<Rightarrow>
                   (case initialState s of
                      None \<Rightarrow> Inl NullState
                    | Some init \<Rightarrow> Inr (Next (s\<lparr>currentState := Some (a_clone A init)\<rparr>))))
            else if isMergePoint c (currentIns s) then at_mergePoint A s
            else Inr (Next s)) of
        Inl e \<Rightarrow> Inl e
      | Inr (Break s1) \<Rightarrow> Inr (Break s1)
      | Inr (Next s1) \<Rightarrow>
          (case do_dispatch A s1 of
             Inl e \<Rightarrow> Inl e
           | Inr s2 \<Rightarrow>
               if isEntryPoint c (currentIns s2) then
                 (case to_finalState A s2 of Inl e \<Rightarrow> Inl e | Inr s3 \<Rightarrow> Inr (Break s3))
               else bwd_control c A s2))"

partial_function (option) bwd_walk ::
  "CodeEditor \<Rightarrow> 'st Analysis \<Rightarrow> 'st driver \<Rightarrow> (error + 'st driver) option" where
  "bwd_walk c A s =
     (case bwd_round c A s of
        Inl e \<Rightarrow> Some (Inl e)
      | Inr (Break s1) \<Rightarrow> Some (Inr s1)
      | Inr (Next s1) \<Rightarrow> bwd_walk c A s1)"

partial_function (option) bwd_loop ::
  "CodeEditor \<Rightarrow> 'st Analysis \<Rightarrow> 'st driver \<Rightarrow> (error + 'st driver) option" where
  "bwd_loop c A s =
     (if worklist s = [] then Some (Inr s)
      else
        (case bwd_walk c A (pop_front s) of
           None \<Rightarrow> None
         | Some (Inl e) \<Rightarrow> Some (Inl e)
         | Some (Inr s1) \<Rightarrow> bwd_loop c A s1))"

text \<open>
  The pass over the whole code before the loop, from \<^verbatim>\<open>begin()\<close> up to \<^verbatim>\<open>end()\<close>:
  jump origins are recorded per target and exit points are queued.
\<close>

definition bwd_scan :: "CodeEditor \<Rightarrow> loc \<Rightarrow> 'st driver \<Rightarrow> 'st driver" where
  "bwd_scan c it s =
     (let s1 = (if isJmp c it
                then s\<lparr>jumpOrigins := (jumpOrigins s)(target c it := jumpOrigins s (target c it) @ [it])\<rparr>
                else s)
      in if isExitPoint c it then s1\<lparr>worklist := it # worklist s1\<rparr> else s1)"

definition bwd_doAnalyze ::
  "CodeEditor \<Rightarrow> 'st Analysis \<Rightarrow> 'st driver \<Rightarrow> (error + 'st driver) option" where
  "bwd_doAnalyze c A s =
     (let s1 = fold (bwd_scan c) [code_begin c .. code_end c - 1] s
      in bwd_loop c A (s1\<lparr>initialState := Some (a_initialState A)\<rparr>))"

subsection \<open>BackwardAnalysisIns\<close>

text \<open>\<^verbatim>\<open>BackwardAnalysisIns::initializeCache()\<close>\<close>

definition initializeCache :: "CodeEditor \<Rightarrow> 'st Analysis \<Rightarrow> 'st driver \<Rightarrow> error + 'st driver" where
  "initializeCache c A s =
     (case initialState s of
        None \<Rightarrow> Inl NullState
      | Some init \<Rightarrow>
          do_dispatch A (s\<lparr>currentState := Some (a_clone A init), currentIns := code_rbegin c\<rparr>))"

text \<open>\<^verbatim>\<open>BackwardAnalysisIns::advance()\<close>\<close>

definition advance :: "CodeEditor \<Rightarrow> 'st Analysis \<Rightarrow> 'st driver \<Rightarrow> error + 'st driver" where
  "advance c A s =
     (let s1 = s\<lparr>currentIns := currentIns s - 1\<rparr> in
      case (if isExitPoint c (currentIns s1) then
              (case initialState s1 of
                 None \<Rightarrow> Inl NullState
               | Some init \<Rightarrow> Inr (s1\<lparr>currentState := Some (a_clone A init)\<rparr>))
            else if isMergePoint c (currentIns s1) then
              (case mergePoints s1 (currentIns s1) of
                 Some fixpoint \<Rightarrow> Inr (s1\<lparr>currentState := Some (a_clone A fixpoint)\<rparr>)
               | None \<Rightarrow> Inr s1)
            else Inr s1) of
        Inl e \<Rightarrow> Inl e
      | Inr s2 \<Rightarrow> do_dispatch A s2)"

text \<open>
  \<^verbatim>\<open>BackwardAnalysisIns::doAnalyze()\<close>: the analysis of \<^verbatim>\<open>BackwardAnalysis\<close>, then
  \<^verbatim>\<open>initializeCache()\<close>.
\<close>

definition bwd_ins_doAnalyze ::
  "CodeEditor \<Rightarrow> 'st Analysis \<Rightarrow> 'st driver \<Rightarrow> (error + 'st driver) option" where
  "bwd_ins_doAnalyze c A s =
     (case bwd_doAnalyze c A s of
        None \<Rightarrow> None
      | Some (Inl e) \<Rightarrow> Some (Inl e)
      | Some (Inr s1) \<Rightarrow> Some (initializeCache c A s1))"

section \<open>Instances for the examples\<close>

text \<open>
  A value domain: the flat lattice of constants, \<^verbatim>\<open>Absent()\<close> its least and
  \<^verbatim>\<open>top()\<close> its greatest element. \<^verbatim>\<open>mergeWith\<close> joins and reports whether the
  receiver moved.
\<close>

datatype flat = Bottom | Const int | Any

fun flat_join :: "flat \<Rightarrow> flat \<Rightarrow> flat" where
  "flat_join Bottom y = y"
| "flat_join x Bottom = x"
| "flat_join (Const a) (Const b) = (if a = b then Const a else Any)"
| "flat_join x y = Any"

definition flat_domain :: "flat avalue" where
  "flat_domain =
     \<lparr>v_mergeWith = (\<lambda>x y. (flat_join x y \<noteq> x, flat_join x y)), v_Absent = Bottom, v_top = Any\<rparr>"

text \<open>Two environments over keys 1, 2, 3; the second has a parent.\<close>

definition env_A :: "(nat, flat) AbstractEnvironment" where
  "env_A = AbstractEnvironment [(1, Const 5), (2, Const 7)] None"

definition env_B :: "(nat, flat) AbstractEnvironment" where
  "env_B = AbstractEnvironment [(2, Const 8), (3, Const 9)]
             (Some (AbstractEnvironment [(1, Const 0)] None))"

text \<open>
  A code of four instructions: 0 a conditional jump to 2, 1 an exit, 2 a label,
  3 an exit.
\<close>

definition code4 :: CodeEditor where
  "code4 =
     \<lparr>isLabel = (\<lambda>l. l = 2), isJmp = (\<lambda>l. l = 0), isUncondJmp = (\<lambda>l. False),
      isExitPoint = (\<lambda>l. l = 1 \<or> l = 3), isEntryPoint = (\<lambda>l. l = 0),
      target = (\<lambda>l. 2),
      successors = (\<lambda>l. if l = 0 then {1, 2} else if l = 2 then {3} else {}),
      code_begin = 0, code_end = 4, code_rbegin = 3\<rparr>"

text \<open>
  An analysis whose state is a counter: every instruction adds one, a merge takes the
  larger one.
\<close>

definition counting :: "nat Analysis" where
  "counting =
     \<lparr>a_initialState = 0, a_clone = (\<lambda>x. x), a_mergeWith = (\<lambda>x y. (x < y, max x y)),
      a_dispatch = (\<lambda>l x. Suc x)\<rparr>"


text \<open>
  Driver states on that code: the forward driver after its first branch, the backward
  driver standing at the label with the jump at 0 recorded as its origin, and the
  backward driver at the end of \<^verbatim>\<open>BackwardAnalysis::doAnalyze\<close>.
\<close>

definition after_first_branch :: "nat driver" where
  "after_first_branch =
     \<lparr>initialState = Some 0, currentState = None, finalState = Some 2, currentIns = 1,
      mergePoints = [2 \<mapsto> 1], worklist = [2], jumpOrigins = (\<lambda>l. [])\<rparr>"

definition at_label :: "nat driver" where
  "at_label = fresh\<lparr>currentState := Some 2, currentIns := 2,
                     jumpOrigins := (\<lambda>l. if l = 2 then [0] else [])\<rparr>"

definition after_backward :: "nat driver" where
  "after_backward =
     \<lparr>initialState = Some 0, currentState = None, finalState = Some 3, currentIns = 0,
      mergePoints = [0 \<mapsto> 2], worklist = [], jumpOrigins = (\<lambda>l. [])(2 := [0])\<rparr>"

section \<open>Properties of the environment merge\<close>

lemma env_clone_id: "env_clone e = e"
  by (induction e rule: env_clone.induct) (auto split: option.splits)

lemma map_of_emplace:
  "map_of m k = None \<Longrightarrow> map_of (map_emplace k v m) = (map_of m)(k \<mapsto> v)"
  by (induction m) (auto simp: fun_eq_iff)

lemma map_of_assign:
  "map_of m k = Some u \<Longrightarrow> map_of (map_assign k v m) = (map_of m)(k \<mapsto> v)"
  by (induction m) (auto simp: fun_eq_iff)

lemma keys_assign: "map fst (map_assign k v m) = map fst m"
  by (induction m) auto

lemma set_keys_emplace: "set (map fst (map_emplace k v m)) = insert k (set (map fst m))"
  by (induction m) (fastforce split: if_splits)+

lemma sorted_emplace:
  "sorted_wrt (<) (map fst m) \<Longrightarrow> sorted_wrt (<) (map fst (map_emplace k v m))"
proof (induction m)
  case Nil
  then show ?case by simp
next
  case (Cons a m)
  obtain k' v' where a: "a = (k', v')" by (cases a)
  have "\<forall>x\<in>set (map fst (map_emplace k v m)). k' < x" if "k' < k"
    using that Cons.prems a by (auto simp: set_keys_emplace simp del: set_map)
  with Cons show ?case using a by (auto simp del: set_map)
qed

lemma merge_other_lookup:
  "distinct (map fst om) \<Longrightarrow>
   map_of (snd (merge_other d om (r, m))) k =
     (case map_of om k of None \<Rightarrow> map_of m k
      | Some v \<Rightarrow> (case map_of m k of None \<Rightarrow> Some (snd (v_mergeWith d v (v_Absent d)))
                    | Some u \<Rightarrow> Some (snd (v_mergeWith d u v))))"
proof (induction om arbitrary: r m)
  case Nil
  then show ?case by simp
next
  case (Cons a om)
  obtain k' v' where a: "a = (k', v')" by (cases a)
  from Cons.prems a have d: "distinct (map fst om)" and nk: "map_of om k' = None"
    by (auto simp: map_of_eq_None_iff)
  show ?case
  proof (cases "map_of m k'")
    case None
    then show ?thesis using a nk Cons.IH[OF d]
      by (auto simp: map_find_def map_of_emplace split: option.splits)
  next
    case (Some u)
    then show ?thesis using a nk Cons.IH[OF d]
      by (auto simp: map_find_def map_of_assign split: option.splits prod.splits)
  qed
qed


lemma merge_other_sorted:
  "sorted_wrt (<) (map fst m) \<Longrightarrow> sorted_wrt (<) (map fst (snd (merge_other d om (r, m))))"
  by (induction om arbitrary: r m)
     (auto simp: sorted_emplace keys_assign split: option.splits prod.splits)

lemma merge_missing_snd:
  "snd (merge_missing d om m r) =
     map (\<lambda>(k, v). if map_of om k = None then (k, snd (v_mergeWith d v (v_Absent d))) else (k, v)) m"
  by (induction m arbitrary: r) (auto simp: map_find_def split_beta split: option.splits)


lemma merge_missing_keys: "map fst (snd (merge_missing d om m r)) = map fst m"
  by (simp add: merge_missing_snd) (induction m; auto)

lemma merge_missing_lookup:
  "map_of (snd (merge_missing d om m r)) k =
     (case map_of m k of None \<Rightarrow> None
      | Some v \<Rightarrow> if map_of om k = None then Some (snd (v_mergeWith d v (v_Absent d))) else Some v)"
  by (simp add: merge_missing_snd) (induction m; auto)


lemma env_mergeWith_env:
  "env (snd (env_mergeWith d a b)) =
     snd (merge_missing d (env b) (snd (merge_other d (env b) (False, env a)))
            (fst (merge_other d (env b) (False, env a))))"
  by (cases a; cases b) (simp add: split_beta split: option.splits)

lemma env_mergeWith_parent:
  "parent (snd (env_mergeWith d a b)) =
     (case parent a of
        None \<Rightarrow> (case parent b of None \<Rightarrow> None | Some q \<Rightarrow> Some (env_clone q))
      | Some p \<Rightarrow> (case parent b of None \<Rightarrow> Some p
                   | Some q \<Rightarrow> Some (snd (env_mergeWith d p q))))"
  by (cases a; cases b) (simp add: split_beta split: option.splits)


declare env_mergeWith.simps [simp del]

lemma env_inv_sorted: "env_inv e \<Longrightarrow> sorted_wrt (<) (map fst (env e))"
  by (cases e) simp

lemma env_inv_distinct: "env_inv e \<Longrightarrow> distinct (map fst (env e))"
  using env_inv_sorted strict_sorted_iff by blast

lemma env_inv_parent: "env_inv e \<Longrightarrow> parent e = Some p \<Longrightarrow> env_inv p"
  by (cases e) simp

lemma env_mergeWith_lookup:
  assumes "env_inv b"
  shows "map_find (env (snd (env_mergeWith d a b))) k =
           merged_value d (map_find (env a) k) (map_find (env b) k)"
  unfolding env_mergeWith_env map_find_def merged_value_def merge_missing_lookup
  by (simp add: merge_other_lookup[OF env_inv_distinct[OF assms]] split: option.splits)

lemma sorted_map_of_unique:
  "sorted_wrt (<) (map fst (xs :: ('k::linorder \<times> 'v) list)) \<Longrightarrow> sorted_wrt (<) (map fst ys)
     \<Longrightarrow> map_of xs = map_of ys \<Longrightarrow> xs = ys"
proof (induction xs arbitrary: ys)
  case Nil
  then show ?case by simp
next
  case (Cons a xs)
  obtain k v where a: "a = (k, v)" by (cases a)
  have "ys \<noteq> []"
  proof
    assume "ys = []"
    with Cons.prems(3) a have "map_of ((k, v) # xs) k = map_of [] k" by metis
    then show False by simp
  qed
  then obtain k' v' ys' where ys: "ys = (k', v') # ys'" by (cases ys) auto
  have lo: "map_of xs x = None" if "x \<le> k" for x
  proof -
    have "\<forall>y\<in>set xs. k < fst y" using Cons.prems(1) a by simp
    with that have "x \<notin> fst ` set xs" by fastforce
    then show ?thesis by (simp add: map_of_eq_None_iff)
  qed
  have lo': "map_of ys' x = None" if "x \<le> k'" for x
  proof -
    have "\<forall>y\<in>set ys'. k' < fst y" using Cons.prems(2) ys by simp
    with that have "x \<notin> fst ` set ys'" by fastforce
    then show ?thesis by (simp add: map_of_eq_None_iff)
  qed
  have eq: "map_of ((k, v) # xs) x = map_of ((k', v') # ys') x" for x
    using Cons.prems(3) a ys by metis
  have kk: "k = k'"
  proof (rule ccontr)
    assume "k \<noteq> k'"
    then consider "k < k'" | "k' < k" by force
    then show False
    proof cases
      case 1
      then have "map_of ys' k = None" by (intro lo') simp
      with eq[of k] \<open>k \<noteq> k'\<close> show False by simp
    next
      case 2
      then have "map_of xs k' = None" by (intro lo) simp
      with eq[of k'] \<open>k \<noteq> k'\<close> show False by simp
    qed
  qed
  with eq[of k] have vv: "v = v'" by simp
  have "map_of xs = map_of ys'"
  proof
    fix x
    show "map_of xs x = map_of ys' x"
      using eq[of x] kk lo[of x] lo'[of x] by (cases "x = k") auto
  qed
  with Cons.IH[of ys'] Cons.prems(1,2) a ys have "xs = ys'" by simp
  with a ys kk vv show ?case by simp
qed

lemma env_mergeWith_sorted:
  "env_inv a \<Longrightarrow> sorted_wrt (<) (map fst (env (snd (env_mergeWith d a b))))"
  unfolding env_mergeWith_env merge_missing_keys
  using merge_other_sorted env_inv_sorted by blast

lemma env_mergeWith_inv:
  "env_inv a \<Longrightarrow> env_inv b \<Longrightarrow> env_inv (snd (env_mergeWith d a b))"
proof (induction d a b rule: env_mergeWith.induct)
  case (1 d m p om op)
  let ?a = "AbstractEnvironment m p" and ?b = "AbstractEnvironment om op"
  have s: "sorted_wrt (<) (map fst (env (snd (env_mergeWith d ?a ?b))))"
    using "1.prems"(1) by (rule env_mergeWith_sorted)
  have p: "case parent (snd (env_mergeWith d ?a ?b)) of None \<Rightarrow> True | Some q \<Rightarrow> env_inv q"
  proof (cases p)
    case None
    then show ?thesis using "1.prems"(2)
      by (auto simp: env_mergeWith_parent env_clone_id split: option.splits)
  next
    case (Some own)
    show ?thesis
    proof (cases op)
      case None
      then show ?thesis using Some "1.prems"(1)
        by (auto simp: env_mergeWith_parent split: option.splits)
    next
      case (Some q)
      have "env_inv (snd (env_mergeWith d own q))"
        using "1.IH"[OF prod.collapse prod.collapse \<open>p = Some own\<close> Some] "1.prems" \<open>p = Some own\<close> Some
        by (simp add: split_beta)
      then show ?thesis using \<open>p = Some own\<close> Some
        by (simp add: env_mergeWith_parent)
    qed
  qed
  from s p show ?case by (cases "snd (env_mergeWith d ?a ?b)") simp
qed


lemma merged_value_commute:
  "merge_commutes d \<Longrightarrow> merged_value d x y = merged_value d y x"
  by (auto simp: merged_value_def merge_commutes_def split: option.splits)



section \<open>Claims about the abstract state\<close>



text \<open>
  C2. The merge gives the same environment in both directions. For environments whose
  maps hold each key once and a value domain whose merge gives the same value in both
  directions, \<open>a.mergeWith(b)\<close> and \<open>b.mergeWith(a)\<close> leave equal environments: the
  same keys with the same values in the own map and in every parent.
\<close>

theorem env_mergeWith_symmetric:
  "env_inv a \<Longrightarrow> env_inv b \<Longrightarrow> merge_commutes d \<Longrightarrow>
   snd (env_mergeWith d a b) = snd (env_mergeWith d b a)"
proof (induction a arbitrary: b)
  case (AbstractEnvironment m p)
  let ?a = "AbstractEnvironment m p"
  let ?l = "snd (env_mergeWith d ?a b)" and ?r = "snd (env_mergeWith d b ?a)"
  have "map_of (env ?l) = map_of (env ?r)"
  proof
    fix k
    show "map_of (env ?l) k = map_of (env ?r) k"
      using env_mergeWith_lookup[OF AbstractEnvironment.prems(2), of d ?a k]
        env_mergeWith_lookup[OF AbstractEnvironment.prems(1), of d b k]
        merged_value_commute[OF AbstractEnvironment.prems(3)]
      by (simp add: map_find_def)
  qed
  then have e: "env ?l = env ?r"
    using env_mergeWith_sorted[OF AbstractEnvironment.prems(1), of d b]
      env_mergeWith_sorted[OF AbstractEnvironment.prems(2), of d ?a]
    by (intro sorted_map_of_unique)
  have p: "parent ?l = parent ?r"
  proof (cases p)
    case None
    then show ?thesis
      by (simp add: env_mergeWith_parent env_clone_id split: option.splits)
  next
    case (Some own)
    show ?thesis
    proof (cases "parent b")
      case None
      then show ?thesis using Some
        by (simp add: env_mergeWith_parent env_clone_id)
    next
      case (Some q)
      have "env_inv own" "env_inv q"
        using AbstractEnvironment.prems \<open>p = Some own\<close> Some
        by (auto dest: env_inv_parent)
      then have "snd (env_mergeWith d own q) = snd (env_mergeWith d q own)"
        using AbstractEnvironment.IH[of own q] \<open>p = Some own\<close> AbstractEnvironment.prems(3)
        by simp
      then show ?thesis using \<open>p = Some own\<close> Some
        by (simp add: env_mergeWith_parent)
    qed
  qed
  from e p show ?case by (rule AbstractEnvironment.expand[OF conjI])
qed

lemma flat_join_commute: "flat_join x y = flat_join y x"
  by (cases x; cases y) auto

lemma flat_domain_commutes: "merge_commutes flat_domain"
  by (simp add: merge_commutes_def flat_domain_def flat_join_commute)

theorem env_mergeWith_symmetric_witness:
  "env_inv env_A \<and> env_inv env_B \<and> merge_commutes flat_domain
   \<and> snd (env_mergeWith flat_domain env_A env_B) = snd (env_mergeWith flat_domain env_B env_A)
   \<and> snd (env_mergeWith flat_domain env_B env_A) =
        AbstractEnvironment [(1, Const 5), (2, Any), (3, Const 9)]
          (Some (AbstractEnvironment [(1, Const 0)] None))"
proof -
  have a: "env_inv env_A" and b: "env_inv env_B"
    by (simp_all add: env_A_def env_B_def)
  have e: "snd (env_mergeWith flat_domain env_B env_A) =
        AbstractEnvironment [(1, Const 5), (2, Any), (3, Const 9)]
          (Some (AbstractEnvironment [(1, Const 0)] None))"
    by (simp add: env_A_def env_B_def flat_domain_def env_mergeWith.simps map_find_def)
  show ?thesis
    using a b flat_domain_commutes e
      env_mergeWith_symmetric[OF a b flat_domain_commutes]
    by simp
qed

lemma stack_merge_fold:
  "n \<le> length a \<Longrightarrow> length a = length b \<Longrightarrow>
   fold (stack_merge_at d b) [0 ..< n] (r, a) =
     (r \<or> (\<exists>i<n. fst (v_mergeWith d (a ! i) (b ! i))),
      map2 (\<lambda>x y. snd (v_mergeWith d x y)) (take n a) (take n b) @ drop n a)"
proof (induction n)
  case 0
  then show ?case by simp
next
  case (Suc n)
  let ?f = "\<lambda>p. snd (v_mergeWith d (fst p) (snd p))"
  let ?done = "map ?f (zip (take n a) (take n b))"
  have len: "length ?done = n" using Suc.prems by simp
  have at: "(?done @ drop n a) ! n = a ! n" using Suc.prems len
    by (simp add: nth_append)
  have upd: "(?done @ drop n a)[n := x] = ?done @ x # drop (Suc n) a" for x
    using Suc.prems len by (simp add: list_update_append Cons_nth_drop_Suc[symmetric])
  have tk: "map ?f (zip (take (Suc n) a) (take (Suc n) b)) =
              ?done @ [snd (v_mergeWith d (a ! n) (b ! n))]"
    using Suc.prems by (simp add: take_Suc_conv_app_nth)
  have ex: "(\<exists>i<Suc n. P i) \<longleftrightarrow> P n \<or> (\<exists>i<n. P i)" for P
    using less_Suc_eq by auto
  show ?case
    using Suc by (simp add: stack_merge_at_def at upd tk ex split_beta disj_ac)
qed

text \<open>
  C3. \<^verbatim>\<open>AbstractStack::mergeWith\<close>: for stacks of equal depth the call returns
  normally, every slot holds the merge of the two values at its index, and the flag is
  true exactly when the merge at some index reported a change; for stacks of unequal
  depth the assertion fails.
\<close>

theorem stack_mergeWith_spec:
  "stack_mergeWith d a b =
     (if depth a = depth b
      then Inr ((\<exists>i<depth a. fst (v_mergeWith d (a ! i) (b ! i))),
                map2 (\<lambda>x y. snd (v_mergeWith d x y)) a b)
      else Inl AssertionFailed)"
  using stack_merge_fold[of "length a" a b d False]
  by (simp add: stack_mergeWith_def depth_def)

text \<open>
  C8. \<^verbatim>\<open>find(name)\<close> returns the own binding of the key when there is one, else
  what the parent chain finds, else \<^verbatim>\<open>top()\<close>: it is the first binding of the key
  along the chain, the own map first, and \<^verbatim>\<open>top()\<close> when no map of the chain binds
  the key.
\<close>

theorem env_find_nearest:
  "env_find d e k =
     (case map_find (env e) k of
        Some v \<Rightarrow> v
      | None \<Rightarrow> (case parent e of Some p \<Rightarrow> env_find d p k | None \<Rightarrow> v_top d))
   \<and> env_find d e k =
     (case List.map_filter (\<lambda>m. map_find m k) (chain e) of
        [] \<Rightarrow> v_top d
      | v # vs \<Rightarrow> v)"
proof (induction e)
  case (AbstractEnvironment m p)
  show ?case
  proof (cases p)
    case None
    then show ?thesis by (simp add: List.map_filter_simps split: option.splits)
  next
    case (Some q)
    then have "q \<in> set_option p" by simp
    from AbstractEnvironment.IH[OF this, THEN conjunct2] Some show ?thesis
      by (simp add: List.map_filter_simps split: option.splits)
  qed
qed

text \<open>
  C10. \<^verbatim>\<open>operator[]\<close> looks at the own map only. When the own map does not bind the
  key, the const operator returns \<^verbatim>\<open>top()\<close>, whatever the parents bind; the
  non-const operator returns \<^verbatim>\<open>top()\<close> too and leaves the key bound to
  \<^verbatim>\<open>top()\<close> in the own map, so that \<^verbatim>\<open>has\<close> holds afterwards, with the other
  bindings and the parent as they were.
\<close>

theorem index_ignores_parent:
  assumes "map_find (env e) k = None"
  shows "index_const d e k = v_top d
    \<and> fst (index_mut d e k) = v_top d
    \<and> has (snd (index_mut d e k)) k
    \<and> map_find (env (snd (index_mut d e k))) = (map_find (env e))(k \<mapsto> v_top d)
    \<and> parent (snd (index_mut d e k)) = parent e"
proof -
  have "map_of (map_emplace k (v_top d) (env e)) = (map_of (env e))(k \<mapsto> v_top d)"
    using assms by (simp add: map_find_def map_of_emplace)
  then show ?thesis
    using assms by (simp add: index_const_def index_mut_def has_def map_find_def fun_eq_iff)
qed

theorem index_ignores_parent_witness:
  "map_find (env env_B) 1 = None
   \<and> env_find flat_domain env_B 1 = Const 0
   \<and> index_const flat_domain env_B 1 = Any
   \<and> fst (index_mut flat_domain env_B 1) = Any
   \<and> has (snd (index_mut flat_domain env_B 1)) 1"
proof -
  have h: "map_find (env env_B) 1 = None"
    by (simp add: env_B_def map_find_def)
  have f: "env_find flat_domain env_B 1 = Const 0"
    by (simp add: env_B_def map_find_def)
  show ?thesis
    using h f index_ignores_parent[OF h, of flat_domain]
    by (simp add: flat_domain_def)
qed






section \<open>Claims about the drivers\<close>

lemma first_branch:
  "fwd_walk code4 counting (pop_front (fwd_start code4 counting fresh)) =
     Some (Inr after_first_branch)"
  by (simp add: fwd_walk.simps fwd_round_def at_mergePoint_def do_dispatch_def fwd_control_def
      shouldJump_def to_finalState_def pop_front_def fwd_start_def fresh_def code4_def
      counting_def after_first_branch_def)

lemma at_mergePoint_Break:
  "at_mergePoint A s = Inr (Break s1) \<Longrightarrow> currentState s1 = None"
  by (auto simp: at_mergePoint_def split: option.splits prod.splits if_splits)

lemma fwd_control_Break:
  "fwd_control c A s = Inr (Break s1) \<Longrightarrow> currentState s1 = None"
  by (auto simp: fwd_control_def to_finalState_def Let_def
      split: option.splits prod.splits if_splits sum.splits)

lemma fwd_round_Break:
  "fwd_round c A s = Inr (Break s1) \<Longrightarrow> currentState s1 = None"
  by (auto simp: fwd_round_def dest: at_mergePoint_Break fwd_control_Break
      split: sum.splits flow.splits if_splits)

lemma fwd_walk_ends_without_state:
  assumes "fwd_walk c A s = Some r"
  shows "case r of Inl e \<Rightarrow> True | Inr s' \<Rightarrow> currentState s' = None"
proof (rule fwd_walk.raw_induct[where P = "\<lambda>c A s r. case r of Inl e \<Rightarrow> True
                                       | Inr s' \<Rightarrow> currentState s' = None", OF _ assms])
  fix walk :: "CodeEditor \<Rightarrow> 'a Analysis \<Rightarrow> 'a driver \<Rightarrow> (error + 'a driver) option"
  fix c A s r
  assume IH: "\<And>c A s r. walk c A s = Some r \<Longrightarrow>
                case r of Inl e \<Rightarrow> True | Inr s' \<Rightarrow> currentState s' = None"
  assume eq: "(case fwd_round c A s of Inl e \<Rightarrow> Some (Inl e)
               | Inr (Break s1) \<Rightarrow> Some (Inr s1) | Inr (Next s1) \<Rightarrow> walk c A s1) = Some r"
  show "case r of Inl e \<Rightarrow> True | Inr s' \<Rightarrow> currentState s' = None"
  proof (cases "fwd_round c A s")
    case (Inl e)
    with eq show ?thesis by auto
  next
    case (Inr fl)
    show ?thesis
    proof (cases fl)
      case (Break s1)
      with Inr eq fwd_round_Break[of c A s s1] show ?thesis by auto
    next
      case (Next s1)
      with Inr eq have "walk c A s1 = Some r" by simp
      then show ?thesis by (rule IH)
    qed
  qed
qed



text \<open>
  C4, as the specification states it, fails: the second location that the forward
  driver pops on the four-instruction code is walked from with no current state, not
  with a copy of the initial state; at the label popped there the walk takes a copy
  of the stored snapshot, which is not the initial state either.
\<close>

theorem fwd_pop_initial_clone_counterexample:
  "fwd_walk code4 counting (pop_front (fwd_start code4 counting fresh)) =
     Some (Inr after_first_branch)
   \<and> worklist after_first_branch \<noteq> []
   \<and> currentState (pop_front after_first_branch)
        \<noteq> Some (a_clone counting (a_initialState counting))
   \<and> at_mergePoint counting (pop_front after_first_branch) =
        Inr (Next ((pop_front after_first_branch)\<lparr>currentState := Some 1\<rparr>))
   \<and> a_clone counting (a_initialState counting) \<noteq> 1"
  using first_branch
  by (simp add: after_first_branch_def pop_front_def counting_def at_mergePoint_def)

text \<open>
  C4, amended. The current state is set from a copy of the initial state once, before
  the worklist loop. Popping a location leaves the current state as it is, and every
  walk of a branch that ends leaves no current state; so from the second pop on the
  walk starts without a current state, and at a merge point that has a stored snapshot
  it goes on with a copy of that snapshot.
\<close>

theorem fwd_state_between_branches:
  "currentState (fwd_start c A s0) = Some (a_clone A (a_initialState A))
   \<and> currentState (pop_front s) = currentState s
   \<and> (fwd_walk c A s = Some (Inr s') \<longrightarrow> currentState s' = None)
   \<and> (currentState t = None \<and> mergePoints t (currentIns t) = Some stored \<longrightarrow>
        at_mergePoint A t = Inr (Next (t\<lparr>currentState := Some (a_clone A stored)\<rparr>)))"
  using fwd_walk_ends_without_state[of c A s "Inr s'"]
  by (auto simp: fwd_start_def pop_front_def at_mergePoint_def)

theorem fwd_state_between_branches_witness:
  "fwd_walk code4 counting (pop_front (fwd_start code4 counting fresh)) =
     Some (Inr after_first_branch)
   \<and> currentState after_first_branch = None
   \<and> currentState (pop_front after_first_branch) = None
   \<and> mergePoints (pop_front after_first_branch) (currentIns (pop_front after_first_branch))
        = Some 1
   \<and> at_mergePoint counting (pop_front after_first_branch) =
        Inr (Next ((pop_front after_first_branch)\<lparr>currentState := Some 1\<rparr>))"
proof -
  have p: "currentState (pop_front after_first_branch) = None
     \<and> mergePoints (pop_front after_first_branch) (currentIns (pop_front after_first_branch))
        = Some 1"
    by (simp add: after_first_branch_def pop_front_def)
  show ?thesis
    using first_branch p
      fwd_state_between_branches[of code4 counting fresh
        "pop_front (fwd_start code4 counting fresh)" after_first_branch
        "pop_front after_first_branch" 1]
    by (simp add: counting_def)
qed

text \<open>
  C5. At a jump, with a current state: the target is put at the front of the worklist
  exactly when it has no stored snapshot or the merge of the current state into its
  snapshot reports a change; the snapshot of the target becomes a copy of the current
  state in the first case and the merged snapshot otherwise. After that an
  unconditional jump ends the branch with no current state, and a conditional jump
  goes on to the next instruction with the current state as it is.
\<close>

theorem fwd_jump_rule:
  assumes "isJmp c (currentIns s)" and "currentState s = Some cur"
  shows "fwd_control c A s =
     (let l = target c (currentIns s);
          jump = (case mergePoints s l of None \<Rightarrow> True
                  | Some stored \<Rightarrow> fst (a_mergeWith A stored cur));
          snapshot = (case mergePoints s l of None \<Rightarrow> a_clone A cur
                      | Some stored \<Rightarrow> snd (a_mergeWith A stored cur));
          s1 = s\<lparr>mergePoints := (mergePoints s)(l \<mapsto> snapshot),
                 worklist := (if jump then l # worklist s else worklist s)\<rparr>
      in if isUncondJmp c (currentIns s) then Inr (Break (s1\<lparr>currentState := None\<rparr>))
         else Inr (Next (s1\<lparr>currentIns := currentIns s + 1\<rparr>)))"
  using assms
  by (cases "mergePoints s (target c (currentIns s))")
     (simp_all add: fwd_control_def shouldJump_def Let_def split_beta)

theorem fwd_jump_rule_witness:
  "isJmp code4 (currentIns (fresh\<lparr>currentState := Some (1::nat)\<rparr>))
   \<and> currentState (fresh\<lparr>currentState := Some (1::nat)\<rparr>) = Some 1
   \<and> fwd_control code4 counting (fresh\<lparr>currentState := Some 1\<rparr>) =
        Inr (Next (fresh\<lparr>currentState := Some 1, currentIns := 1,
                          mergePoints := [2 \<mapsto> 1], worklist := [2]\<rparr>))
   \<and> fwd_control (code4\<lparr>isUncondJmp := (\<lambda>l. l = 0)\<rparr>) counting
          (fresh\<lparr>currentState := Some 1, mergePoints := [2 \<mapsto> 1]\<rparr>) =
        Inr (Break (fresh\<lparr>currentState := None, mergePoints := [2 \<mapsto> 1]\<rparr>))"
proof -
  have h: "isJmp code4 (currentIns (fresh\<lparr>currentState := Some (1::nat)\<rparr>))"
    "currentState (fresh\<lparr>currentState := Some (1::nat)\<rparr>) = Some 1"
    by (simp_all add: code4_def fresh_def)
  have h': "isJmp (code4\<lparr>isUncondJmp := (\<lambda>l. l = 0)\<rparr>)
              (currentIns (fresh\<lparr>currentState := Some (1::nat), mergePoints := [2 \<mapsto> 1]\<rparr>))"
    "currentState (fresh\<lparr>currentState := Some (1::nat), mergePoints := [2 \<mapsto> 1]\<rparr>) = Some 1"
    by (simp_all add: code4_def fresh_def)
  show ?thesis
    using h fwd_jump_rule[OF h, of counting] fwd_jump_rule[OF h', of counting]
    by (simp add: code4_def fresh_def counting_def)
qed


lemma shouldFollowJumpFrom_ok:
  "currentState s = Some cur \<Longrightarrow>
   \<exists>follow s1. shouldFollowJumpFrom A origin s = Inr (follow, s1)
      \<and> currentState s1 = Some cur \<and> currentIns s1 = currentIns s
      \<and> worklist s1 = worklist s"
  by (cases "mergePoints s origin") (auto simp: shouldFollowJumpFrom_def split_beta)

lemma follow_origins_ok:
  "currentState s = Some cur \<Longrightarrow>
   \<exists>s1. follow_origins A origins s = Inr s1
      \<and> currentState s1 = Some cur \<and> currentIns s1 = currentIns s"
proof (induction origins arbitrary: s)
  case Nil
  then show ?case by simp
next
  case (Cons origin rest)
  from shouldFollowJumpFrom_ok[OF Cons.prems, of A origin]
  obtain follow s1 where f: "shouldFollowJumpFrom A origin s = Inr (follow, s1)"
    "currentState s1 = Some cur" "currentIns s1 = currentIns s" by blast
  let ?s2 = "if follow then s1\<lparr>worklist := origin # worklist s1\<rparr> else s1"
  have "currentState ?s2 = Some cur" "currentIns ?s2 = currentIns s"
    using f by auto
  with Cons.IH[of ?s2] f(1) show ?case by auto
qed

text \<open>
  C6. In the backward driver, at a label and with a current state: the loop over the
  recorded jump origins ends normally and leaves the current state and the current
  location as they were; after it the branch ends, with no current state, exactly when
  the instruction before the label is an exit point or does not have the label among
  its successors, and otherwise the walk steps to the instruction before the label
  with its current state.
\<close>

theorem bwd_label_fallthrough:
  assumes "isLabel c (currentIns s)" and "currentState s = Some cur"
  shows "\<exists>s1. follow_origins A (jumpOrigins s (currentIns s)) s = Inr s1
      \<and> currentState s1 = Some cur \<and> currentIns s1 = currentIns s
      \<and> bwd_control c A s =
           (if isExitPoint c (currentIns s - 1)
               \<or> currentIns s \<notin> successors c (currentIns s - 1)
            then Inr (Break (s1\<lparr>currentState := None\<rparr>))
            else Inr (Next (s1\<lparr>currentIns := currentIns s - 1\<rparr>)))"
proof -
  from follow_origins_ok[OF assms(2), of A "jumpOrigins s (currentIns s)"]
  obtain s1 where s1: "follow_origins A (jumpOrigins s (currentIns s)) s = Inr s1"
    "currentState s1 = Some cur" "currentIns s1 = currentIns s" by blast
  then show ?thesis using assms(1)
    by (intro exI[of _ s1]) (simp add: bwd_control_def)
qed

theorem bwd_label_fallthrough_witness:
  "isLabel code4 (currentIns at_label) \<and> currentState at_label = Some 2
   \<and> bwd_control code4 counting at_label =
        Inr (Break (at_label\<lparr>currentState := None, mergePoints := [0 \<mapsto> 2],
                              worklist := [0]\<rparr>))
   \<and> bwd_control (code4\<lparr>isExitPoint := (\<lambda>l. l = 3), successors := (\<lambda>l. {l + 1})\<rparr>)
          counting at_label =
        Inr (Next (at_label\<lparr>currentIns := 1, mergePoints := [0 \<mapsto> 2], worklist := [0]\<rparr>))"
proof -
  have h: "isLabel code4 (currentIns at_label)" "currentState at_label = Some 2"
    by (simp_all add: code4_def at_label_def fresh_def)
  have h': "isLabel (code4\<lparr>isExitPoint := (\<lambda>l. l = 3), successors := (\<lambda>l. {l + 1})\<rparr>)
              (currentIns at_label)"
    by (simp add: code4_def at_label_def fresh_def)
  from bwd_label_fallthrough[OF h, of counting]
  have 1: "bwd_control code4 counting at_label =
        Inr (Break (at_label\<lparr>currentState := None, mergePoints := [0 \<mapsto> 2],
                              worklist := [0]\<rparr>))"
    by (auto simp: code4_def at_label_def fresh_def counting_def shouldFollowJumpFrom_def)
  from bwd_label_fallthrough[OF h' h(2), of counting]
  have 2: "bwd_control (code4\<lparr>isExitPoint := (\<lambda>l. l = 3), successors := (\<lambda>l. {l + 1})\<rparr>)
          counting at_label =
        Inr (Next (at_label\<lparr>currentIns := 1, mergePoints := [0 \<mapsto> 2], worklist := [0]\<rparr>))"
    by (auto simp: code4_def at_label_def fresh_def counting_def shouldFollowJumpFrom_def)
  from h 1 2 show ?thesis by simp
qed

lemma code4_locations: "[0 .. 3] = [0, 1, 2, 3 :: int]"
  by (simp add: upto.simps)

lemma backward_run: "bwd_doAnalyze code4 counting fresh = Some (Inr after_backward)"
proof -
  have two: "Suc (Suc 0) = 2" by simp
  show ?thesis
    by (simp add: two bwd_doAnalyze_def bwd_scan_def bwd_loop.simps bwd_walk.simps bwd_round_def
      bwd_control_def at_mergePoint_def do_dispatch_def to_finalState_def
      shouldFollowJumpFrom_def isMergePoint_def pop_front_def fresh_def code4_def counting_def
      after_backward_def code4_locations Let_def)
qed

text \<open>
  C7. In the backward retrieval driver the instruction at the cached location is
  dispatched after every reset and after every step. \<^verbatim>\<open>initializeCache\<close>, whatever
  the current state was before (there is none when \<^verbatim>\<open>doAnalyze\<close> calls it), leaves
  the cache at the reverse-begin location with a copy of the initial state to which
  that instruction has been applied. \<^verbatim>\<open>advance\<close> steps to the previous location,
  takes a copy of the initial state there if it is an exit point, else a copy of the
  stored snapshot if it is a merge point that has one, else keeps the cached state,
  and applies the instruction of the new location to it.
\<close>

theorem backward_cache_dispatch:
  assumes "initialState s = Some init"
  shows "initializeCache c A s =
           Inr (s\<lparr>currentState := Some (a_dispatch A (code_rbegin c) (a_clone A init)),
                  currentIns := code_rbegin c\<rparr>)
    \<and> (currentState s = Some cur \<longrightarrow>
         advance c A s =
           (let l = currentIns s - 1;
                reloaded = (if isExitPoint c l then a_clone A init
                            else if isMergePoint c l then
                              (case mergePoints s l of
                                 Some fixpoint \<Rightarrow> a_clone A fixpoint
                               | None \<Rightarrow> cur)
                            else cur)
            in Inr (s\<lparr>currentIns := l, currentState := Some (a_dispatch A l reloaded)\<rparr>)))"
  using assms
  by (simp add: initializeCache_def advance_def do_dispatch_def Let_def split: option.splits)

theorem backward_cache_dispatch_witness:
  "bwd_doAnalyze code4 counting fresh = Some (Inr after_backward)
   \<and> initialState after_backward = Some 0 \<and> currentState after_backward = None
   \<and> initializeCache code4 counting after_backward =
        Inr (after_backward\<lparr>currentState := Some 1, currentIns := 3\<rparr>)
   \<and> bwd_ins_doAnalyze code4 counting fresh =
        Some (Inr (after_backward\<lparr>currentState := Some 1, currentIns := 3\<rparr>))
   \<and> advance code4 counting (after_backward\<lparr>currentState := Some 1, currentIns := 3\<rparr>) =
        Inr (after_backward\<lparr>currentState := Some 2, currentIns := 2\<rparr>)
   \<and> advance code4 counting (after_backward\<lparr>currentState := Some 2, currentIns := 2\<rparr>) =
        Inr (after_backward\<lparr>currentState := Some 1, currentIns := 1\<rparr>)
   \<and> advance code4 counting (after_backward\<lparr>currentState := Some 1, currentIns := 1\<rparr>) =
        Inr (after_backward\<lparr>currentState := Some 3, currentIns := 0\<rparr>)"
proof -
  have h: "initialState after_backward = Some 0" and n: "currentState after_backward = None"
    by (simp_all add: after_backward_def)
  have h': "initialState (after_backward\<lparr>currentState := Some x, currentIns := l\<rparr>) = Some 0"
    for x l
    by (simp add: after_backward_def)
  have i: "initializeCache code4 counting after_backward =
        Inr (after_backward\<lparr>currentState := Some 1, currentIns := 3\<rparr>)"
    using backward_cache_dispatch[OF h, of code4 counting]
    by (simp add: code4_def counting_def after_backward_def)
  have d: "bwd_ins_doAnalyze code4 counting fresh =
        Some (Inr (after_backward\<lparr>currentState := Some 1, currentIns := 3\<rparr>))"
    by (simp add: bwd_ins_doAnalyze_def backward_run i)
  have a: "advance code4 counting (after_backward\<lparr>currentState := Some 1, currentIns := 3\<rparr>) =
        Inr (after_backward\<lparr>currentState := Some 2, currentIns := 2\<rparr>)"
    "advance code4 counting (after_backward\<lparr>currentState := Some 2, currentIns := 2\<rparr>) =
        Inr (after_backward\<lparr>currentState := Some 1, currentIns := 1\<rparr>)"
    "advance code4 counting (after_backward\<lparr>currentState := Some 1, currentIns := 1\<rparr>) =
        Inr (after_backward\<lparr>currentState := Some 3, currentIns := 0\<rparr>)"
    using backward_cache_dispatch[OF h'[where x = 1 and l = 3], where c = code4
        and A = counting and cur = 1]
      backward_cache_dispatch[OF h'[where x = 2 and l = 2], where c = code4
        and A = counting and cur = 2]
      backward_cache_dispatch[OF h'[where x = 1 and l = 1], where c = code4
        and A = counting and cur = 1]
    by (simp_all add: code4_def counting_def after_backward_def isMergePoint_def Let_def)
  from backward_run h n i d a show ?thesis by simp
qed

end
